theory Spec2Isabelle
  imports Main "HOL-Library.Word"
begin

unbundle bit_operations_syntax

section \<open>The LC-3 virtual machine of \<open>src/vm/VM.c\<close>\<close>

text \<open>
  The machine of \<open>VM.c\<close> is two global arrays, \<open>mem\<close> (65536 words of 16 bits) and
  \<open>reg\<close> (10 words: R0..R7, the program counter and the condition flags), driven by the
  \<open>while (running)\<close> loop of \<open>main\<close>. The arrays become fields of a state record that every
  operation takes and returns. A \<open>uint16_t\<close> is a \<open>16 word\<close>: the C code computes in
  \<open>int\<close> after integer promotion and truncates on every assignment to a \<open>uint16_t\<close>
  object or parameter, which for \<open>+\<close>, \<open>&\<close>, \<open>|\<close> and \<open>~\<close> is the arithmetic of
  \<open>16 word\<close>. The one place where the wider \<open>int\<close> is visible, the shift
  \<open>0xFFFF << bit_count\<close> of \<open>sign_extend\<close>, is computed on 32 bits.
\<close>

type_synonym word16 = "16 word"

subsection \<open>Constants\<close>

text \<open>\<open>#define MEM_MAX (1<<16)\<close>\<close>

abbreviation (input) MEM_MAX :: nat where "MEM_MAX \<equiv> 65536"

text \<open>The register enumeration: indices into \<open>reg\<close>.\<close>

abbreviation (input) R_R0 :: nat where "R_R0 \<equiv> 0"
abbreviation (input) R_R7 :: nat where "R_R7 \<equiv> 7"
abbreviation (input) R_PC :: nat where "R_PC \<equiv> 8"
abbreviation (input) R_COND :: nat where "R_COND \<equiv> 9"
abbreviation (input) R_COUNT :: nat where "R_COUNT \<equiv> 10"

text \<open>The opcode enumeration, in the order of the source.\<close>

abbreviation (input) OP_BR :: word16 where "OP_BR \<equiv> 0"
abbreviation (input) OP_ADD :: word16 where "OP_ADD \<equiv> 1"
abbreviation (input) OP_LD :: word16 where "OP_LD \<equiv> 2"
abbreviation (input) OP_ST :: word16 where "OP_ST \<equiv> 3"
abbreviation (input) OP_JSR :: word16 where "OP_JSR \<equiv> 4"
abbreviation (input) OP_AND :: word16 where "OP_AND \<equiv> 5"
abbreviation (input) OP_LDR :: word16 where "OP_LDR \<equiv> 6"
abbreviation (input) OP_STR :: word16 where "OP_STR \<equiv> 7"
abbreviation (input) OP_RTI :: word16 where "OP_RTI \<equiv> 8"
abbreviation (input) OP_NOT :: word16 where "OP_NOT \<equiv> 9"
abbreviation (input) OP_LDI :: word16 where "OP_LDI \<equiv> 10"
abbreviation (input) OP_STI :: word16 where "OP_STI \<equiv> 11"
abbreviation (input) OP_JMP :: word16 where "OP_JMP \<equiv> 12"
abbreviation (input) OP_RES :: word16 where "OP_RES \<equiv> 13"
abbreviation (input) OP_LEA :: word16 where "OP_LEA \<equiv> 14"
abbreviation (input) OP_TRAP :: word16 where "OP_TRAP \<equiv> 15"

text \<open>Condition flags: \<open>1 << 0\<close>, \<open>1 << 1\<close>, \<open>1 << 2\<close>.\<close>

abbreviation (input) FL_POS :: word16 where "FL_POS \<equiv> 1"
abbreviation (input) FL_ZRO :: word16 where "FL_ZRO \<equiv> 2"
abbreviation (input) FL_NEG :: word16 where "FL_NEG \<equiv> 4"

text \<open>Trap codes.\<close>

abbreviation (input) TRAP_GETC :: word16 where "TRAP_GETC \<equiv> 0x20"
abbreviation (input) TRAP_OUT :: word16 where "TRAP_OUT \<equiv> 0x21"
abbreviation (input) TRAP_PUTS :: word16 where "TRAP_PUTS \<equiv> 0x22"
abbreviation (input) TRAP_IN :: word16 where "TRAP_IN \<equiv> 0x23"
abbreviation (input) TRAP_PUTSP :: word16 where "TRAP_PUTSP \<equiv> 0x24"
abbreviation (input) TRAP_HALT :: word16 where "TRAP_HALT \<equiv> 0x25"

text \<open>Memory mapped registers.\<close>

abbreviation (input) MR_KBSR :: word16 where "MR_KBSR \<equiv> 0xFE00"
abbreviation (input) MR_KBDR :: word16 where "MR_KBDR \<equiv> 0xFE02"

text \<open>\<open>enum { PC_START = 0x3000 }\<close>\<close>

abbreviation (input) PC_START :: word16 where "PC_START \<equiv> 0x3000"

subsection \<open>The host: keyboard and terminal\<close>

text \<open>
  \<open>check_key\<close> (a \<open>select\<close> on standard input with a zero timeout), \<open>getchar\<close> and the
  output calls \<open>putc\<close>, \<open>printf\<close>, \<open>puts\<close> are the only contact with the outside. The host
  is a record of what the outside will answer: \<open>key_ready k\<close> is the answer of the
  \<open>k\<close>-th call of \<open>check_key\<close>, \<open>kbd_input k\<close> the \<open>int\<close> that the \<open>k\<close>-th call of
  \<open>getchar\<close> returns (a byte, or \<open>EOF = -1\<close>); \<open>polls\<close> and \<open>reads\<close> count the calls made
  so far, and \<open>stdout\<close> is the sequence of bytes written. \<open>char_signed\<close> is the
  implementation's choice for plain \<open>char\<close>, which only \<open>TRAP_IN\<close> depends on. A call
  of \<open>getchar\<close> is taken to return; terminal modes and \<open>fflush\<close> are not part of the state.
\<close>

record host =
  key_ready :: "nat \<Rightarrow> bool"
  polls :: nat
  kbd_input :: "nat \<Rightarrow> int"
  reads :: nat
  stdout :: "8 word list"
  char_signed :: bool

definition check_key :: "host \<Rightarrow> bool \<times> host" where
  "check_key h = (key_ready h (polls h), h\<lparr>polls := Suc (polls h)\<rparr>)"

definition getchar :: "host \<Rightarrow> int \<times> host" where
  "getchar h = (kbd_input h (reads h), h\<lparr>reads := Suc (reads h)\<rparr>)"

text \<open>\<open>putc(c, stdout)\<close> writes \<open>(unsigned char) c\<close>: the low eight bits.\<close>

definition putc :: "8 word \<Rightarrow> host \<Rightarrow> host" where
  "putc c h = h\<lparr>stdout := stdout h @ [c]\<rparr>"

definition put_string :: "string \<Rightarrow> host \<Rightarrow> host" where
  "put_string str h = h\<lparr>stdout := stdout h @ map of_char str\<rparr>"

subsection \<open>Machine state\<close>

text \<open>
  \<open>Running\<close> is \<open>running = 1\<close>; \<open>Halted\<close> is \<open>running = 0\<close> after \<open>TRAP_HALT\<close>;
  \<open>Aborted\<close> is the process killed by \<open>abort()\<close>; \<open>MemFault\<close> is a read through a pointer
  that has left the array \<open>mem\<close> (the string traps walk a raw pointer), where C defines
  no behaviour.
\<close>

datatype status = Running | Halted | Aborted | MemFault

record vm =
  mem :: "word16 \<Rightarrow> word16"
  reg :: "nat \<Rightarrow> word16"
  io :: host
  status :: status

subsection \<open>\<open>update_flags\<close>, \<open>mem_write\<close>, \<open>mem_read\<close>, \<open>sign_extend\<close>\<close>

definition update_flags :: "nat \<Rightarrow> vm \<Rightarrow> vm" where
  "update_flags r s =
     (if reg s r = 0 then s\<lparr>reg := (reg s)(R_COND := FL_ZRO)\<rparr>
      else if drop_bit 15 (reg s r) \<noteq> 0 then s\<lparr>reg := (reg s)(R_COND := FL_NEG)\<rparr>
      else s\<lparr>reg := (reg s)(R_COND := FL_POS)\<rparr>)"

definition mem_write :: "word16 \<Rightarrow> word16 \<Rightarrow> vm \<Rightarrow> vm" where
  "mem_write address val s = s\<lparr>mem := (mem s)(address := val)\<rparr>"

definition mem_read :: "word16 \<Rightarrow> vm \<Rightarrow> word16 \<times> vm" where
  "mem_read address s =
     (let s' =
        (if address = MR_KBSR then
           (case check_key (io s) of (ready, h1) \<Rightarrow>
              if ready then
                (case getchar h1 of (c, h2) \<Rightarrow>
                   s\<lparr>mem := (mem s)(MR_KBSR := push_bit 15 1, MR_KBDR := word_of_int c),
                     io := h2\<rparr>)
              else s\<lparr>mem := (mem s)(MR_KBSR := 0), io := h1\<rparr>)
         else s)
      in (mem s' address, s'))"

text \<open>
  \<open>x >> (bit_count - 1)\<close> and \<open>0xFFFF << bit_count\<close> are computed in \<open>int\<close> (32 bits);
  the assignment \<open>x |= ...\<close> truncates to 16 bits.
\<close>

definition sign_extend :: "word16 \<Rightarrow> nat \<Rightarrow> word16" where
  "sign_extend x bit_count =
     (if drop_bit (bit_count - 1) (ucast x :: 32 word) AND 1 \<noteq> 0
      then ucast ((ucast x :: 32 word) OR push_bit bit_count (0xFFFF :: 32 word))
      else x)"

subsection \<open>The instructions: the cases of the \<open>switch (op)\<close> in \<open>main\<close>\<close>

text \<open>Register fields: \<open>(instr >> k) & 0x7\<close>, used as an index into \<open>reg\<close>.\<close>

definition reg_field :: "word16 \<Rightarrow> nat \<Rightarrow> nat" where
  "reg_field instr k = unat (drop_bit k instr AND 0x7)"

definition set_reg :: "nat \<Rightarrow> word16 \<Rightarrow> vm \<Rightarrow> vm" where
  "set_reg r v s = s\<lparr>reg := (reg s)(r := v)\<rparr>"

definition exec_ADD :: "word16 \<Rightarrow> vm \<Rightarrow> vm" where
  "exec_ADD instr s =
     (let r0 = reg_field instr 9;
          r1 = reg_field instr 6;
          imm_flag = drop_bit 5 instr AND 0x1;
          s1 = (if imm_flag \<noteq> 0
                then (let imm5 = sign_extend (instr AND 0x1F) 5
                      in set_reg r0 (reg s r1 + imm5) s)
                else (let r2 = unat (instr AND 0x7)
                      in set_reg r0 (reg s r1 + reg s r2) s))
      in update_flags r0 s1)"

definition exec_AND :: "word16 \<Rightarrow> vm \<Rightarrow> vm" where
  "exec_AND instr s =
     (let r0 = reg_field instr 9;
          r1 = reg_field instr 6;
          imm_flag = drop_bit 5 instr AND 0x1;
          s1 = (if imm_flag \<noteq> 0
                then (let imm5 = sign_extend (instr AND 0x1F) 5
                      in set_reg r0 (reg s r1 AND imm5) s)
                else (let r2 = unat (instr AND 0x7)
                      in set_reg r0 (reg s r1 AND reg s r2) s))
      in update_flags r0 s1)"

definition exec_NOT :: "word16 \<Rightarrow> vm \<Rightarrow> vm" where
  "exec_NOT instr s =
     (let r0 = reg_field instr 9;
          r1 = reg_field instr 6
      in update_flags r0 (set_reg r0 (NOT (reg s r1)) s))"

definition exec_BR :: "word16 \<Rightarrow> vm \<Rightarrow> vm" where
  "exec_BR instr s =
     (let pc_offset = sign_extend (instr AND 0x1FF) 9;
          cond_flag = drop_bit 9 instr AND 0x7
      in if cond_flag AND reg s R_COND \<noteq> 0
         then set_reg R_PC (reg s R_PC + pc_offset) s
         else s)"

definition exec_JMP :: "word16 \<Rightarrow> vm \<Rightarrow> vm" where
  "exec_JMP instr s = (let r1 = reg_field instr 6 in set_reg R_PC (reg s r1) s)"

definition exec_JSR :: "word16 \<Rightarrow> vm \<Rightarrow> vm" where
  "exec_JSR instr s =
     (let long_flag = drop_bit 11 instr AND 1;
          s1 = set_reg R_R7 (reg s R_PC) s
      in if long_flag \<noteq> 0
         then (let long_pc_offset = sign_extend (instr AND 0x7FF) 11
               in set_reg R_PC (reg s1 R_PC + long_pc_offset) s1)
         else (let r1 = reg_field instr 6 in set_reg R_PC (reg s1 r1) s1))"

definition exec_LD :: "word16 \<Rightarrow> vm \<Rightarrow> vm" where
  "exec_LD instr s =
     (let r0 = reg_field instr 9;
          pc_offset = sign_extend (instr AND 0x1FF) 9
      in case mem_read (reg s R_PC + pc_offset) s of
           (v, s1) \<Rightarrow> update_flags r0 (set_reg r0 v s1))"

definition exec_LDI :: "word16 \<Rightarrow> vm \<Rightarrow> vm" where
  "exec_LDI instr s =
     (let r0 = reg_field instr 9;
          pc_offset = sign_extend (instr AND 0x1FF) 9
      in case mem_read (reg s R_PC + pc_offset) s of
           (a, s1) \<Rightarrow>
             (case mem_read a s1 of
                (v, s2) \<Rightarrow> update_flags r0 (set_reg r0 v s2)))"

definition exec_LDR :: "word16 \<Rightarrow> vm \<Rightarrow> vm" where
  "exec_LDR instr s =
     (let r0 = reg_field instr 9;
          r1 = reg_field instr 6;
          offset = sign_extend (instr AND 0x3F) 6
      in case mem_read (reg s r1 + offset) s of
           (v, s1) \<Rightarrow> update_flags r0 (set_reg r0 v s1))"

definition exec_LEA :: "word16 \<Rightarrow> vm \<Rightarrow> vm" where
  "exec_LEA instr s =
     (let r0 = reg_field instr 9;
          pc_offset = sign_extend (instr AND 0x1FF) 9
      in update_flags r0 (set_reg r0 (reg s R_PC + pc_offset) s))"

definition exec_ST :: "word16 \<Rightarrow> vm \<Rightarrow> vm" where
  "exec_ST instr s =
     (let r0 = reg_field instr 9;
          pc_offset = sign_extend (instr AND 0x1FF) 9
      in mem_write (reg s R_PC + pc_offset) (reg s r0) s)"

definition exec_STI :: "word16 \<Rightarrow> vm \<Rightarrow> vm" where
  "exec_STI instr s =
     (let r0 = reg_field instr 9;
          pc_offset = sign_extend (instr AND 0x1FF) 9
      in case mem_read (reg s R_PC + pc_offset) s of
           (a, s1) \<Rightarrow> mem_write a (reg s1 r0) s1)"

definition exec_STR :: "word16 \<Rightarrow> vm \<Rightarrow> vm" where
  "exec_STR instr s =
     (let r0 = reg_field instr 9;
          r1 = reg_field instr 6;
          offset = sign_extend (instr AND 0x3F) 6
      in mem_write (reg s r1 + offset) (reg s r0) s)"

subsection \<open>The traps\<close>

text \<open>
  \<open>TRAP_PUTS\<close> and \<open>TRAP_PUTSP\<close> walk the pointer \<open>c = mem + reg[R_R0]\<close> upwards until
  \<open>*c\<close> is zero. The pointer is an index into the array, here a \<open>nat\<close>: it does not wrap
  at \<open>MEM_MAX\<close>, and reading at \<open>MEM_MAX\<close> or beyond is outside the array. The functions
  return the host after the output, and whether the walk ended on a zero word inside
  the array.
\<close>

function puts_loop :: "(word16 \<Rightarrow> word16) \<Rightarrow> nat \<Rightarrow> host \<Rightarrow> bool \<times> host" where
  "puts_loop m c h =
     (if MEM_MAX \<le> c then (False, h)
      else if m (of_nat c) = 0 then (True, h)
      else puts_loop m (Suc c) (putc (ucast (m (of_nat c))) h))"
  by pat_completeness auto
termination
  by (relation "measure (\<lambda>(m, c, h). MEM_MAX - c)") auto

declare puts_loop.simps [simp del]

function putsp_loop :: "(word16 \<Rightarrow> word16) \<Rightarrow> nat \<Rightarrow> host \<Rightarrow> bool \<times> host" where
  "putsp_loop m c h =
     (if MEM_MAX \<le> c then (False, h)
      else if m (of_nat c) = 0 then (True, h)
      else (let char1 = (ucast (m (of_nat c) AND 0xFF) :: 8 word);
                h1 = putc char1 h;
                char2 = (ucast (drop_bit 8 (m (of_nat c))) :: 8 word);
                h2 = (if char2 \<noteq> 0 then putc char2 h1 else h1)
            in putsp_loop m (Suc c) h2))"
  by pat_completeness auto
termination
  by (relation "measure (\<lambda>(m, c, h). MEM_MAX - c)") auto

declare putsp_loop.simps [simp del]

text \<open>
  \<open>char c = getchar()\<close> keeps the low eight bits; \<open>(uint16_t) c\<close> then sign-extends
  where plain \<open>char\<close> is signed and zero-extends where it is unsigned.
\<close>

definition char_to_u16 :: "bool \<Rightarrow> 8 word \<Rightarrow> word16" where
  "char_to_u16 is_signed c = (if is_signed then scast c else ucast c)"

text \<open>
  The inner \<open>switch (instr & 0xFF)\<close>. It has no \<open>default\<close>: for any other vector
  control leaves the switch with nothing done.
\<close>

definition exec_TRAP :: "word16 \<Rightarrow> vm \<Rightarrow> vm" where
  "exec_TRAP instr s =
     (let s1 = set_reg R_R7 (reg s R_PC) s;
          v = instr AND 0xFF
      in if v = TRAP_GETC then
           (case getchar (io s1) of (c, h) \<Rightarrow> (set_reg R_R0 (word_of_int c) s1)\<lparr>io := h\<rparr>)
         else if v = TRAP_OUT then
           s1\<lparr>io := putc (ucast (reg s1 R_R0)) (io s1)\<rparr>
         else if v = TRAP_PUTS then
           (case puts_loop (mem s1) (unat (reg s1 R_R0)) (io s1) of
              (ok, h) \<Rightarrow> s1\<lparr>io := h, status := (if ok then status s1 else MemFault)\<rparr>)
         else if v = TRAP_IN then
           (case getchar (put_string ''Enter a character: '' (io s1)) of
              (i, h) \<Rightarrow>
                (let c = (word_of_int i :: 8 word)
                 in (set_reg R_R0 (char_to_u16 (char_signed h) c) s1)\<lparr>io := putc c h\<rparr>))
         else if v = TRAP_PUTSP then
           (case putsp_loop (mem s1) (unat (reg s1 R_R0)) (io s1) of
              (ok, h) \<Rightarrow> s1\<lparr>io := h, status := (if ok then status s1 else MemFault)\<rparr>)
         else if v = TRAP_HALT then
           s1\<lparr>io := putc 0x0A (put_string ''HALT'' (io s1)), status := Halted\<rparr>
         else s1)"

subsection \<open>The execution loop\<close>

text \<open>The outer \<open>switch (op)\<close>, cases in the order of the source; \<open>default: abort()\<close>.\<close>

definition exec :: "word16 \<Rightarrow> vm \<Rightarrow> vm" where
  "exec instr s =
     (let op = drop_bit 12 instr
      in if op = OP_ADD then exec_ADD instr s
         else if op = OP_AND then exec_AND instr s
         else if op = OP_NOT then exec_NOT instr s
         else if op = OP_BR then exec_BR instr s
         else if op = OP_JMP then exec_JMP instr s
         else if op = OP_JSR then exec_JSR instr s
         else if op = OP_LD then exec_LD instr s
         else if op = OP_LDI then exec_LDI instr s
         else if op = OP_LDR then exec_LDR instr s
         else if op = OP_LEA then exec_LEA instr s
         else if op = OP_ST then exec_ST instr s
         else if op = OP_STI then exec_STI instr s
         else if op = OP_STR then exec_STR instr s
         else if op = OP_TRAP then exec_TRAP instr s
         else s\<lparr>status := Aborted\<rparr>)"

text \<open>
  \<open>instr = mem_read(reg[R_PC]++)\<close>: the argument is the old program counter, and the
  increment is complete before \<open>mem_read\<close> runs.
\<close>

definition fetch :: "vm \<Rightarrow> word16 \<times> vm" where
  "fetch s = (let pc = reg s R_PC in mem_read pc (set_reg R_PC (pc + 1) s))"

text \<open>One pass through the body of \<open>while (running)\<close>.\<close>

definition step :: "vm \<Rightarrow> vm" where
  "step s = (case fetch s of (instr, s1) \<Rightarrow> exec instr s1)"

text \<open>
  The loop itself, with a bound on the number of passes: \<open>run n s\<close> is the state
  after \<open>n\<close> passes, or the state in which the loop stopped if that came earlier.
\<close>

fun run :: "nat \<Rightarrow> vm \<Rightarrow> vm" where
  "run 0 s = s"
| "run (Suc n) s = (if status s = Running then run n (step s) else s)"

text \<open>
  The state on entry to the loop: \<open>reg\<close> is a zero-initialised global, then
  \<open>reg[R_COND] = FL_ZRO\<close> and \<open>reg[R_PC] = PC_START\<close>; the memory is what the image
  loader left.
\<close>

definition initial_state :: "(word16 \<Rightarrow> word16) \<Rightarrow> host \<Rightarrow> vm" where
  "initial_state m h =
     \<lparr>mem = m, reg = (\<lambda>_. 0)(R_COND := FL_ZRO, R_PC := PC_START), io = h, status = Running\<rparr>"

subsection \<open>Notions of the specification\<close>

text \<open>
  The value that the specification assigns to a bit field: the low \<open>n\<close> bits of a word,
  read as a two's-complement number of \<open>n\<close> bits.
\<close>

definition twos_complement :: "nat \<Rightarrow> word16 \<Rightarrow> int" where
  "twos_complement n v =
     (if bit v (n - 1) then uint (take_bit n v) - 2 ^ n else uint (take_bit n v))"

text \<open>Exactly one of the sixteen bits of a word is set.\<close>

definition one_bit_set :: "word16 \<Rightarrow> bool" where
  "one_bit_set w = (length (filter (bit w) [0..<16]) = 1)"

text \<open>
  The words of the zero-terminated string that starts at index \<open>a\<close> of the memory
  array: the stored words from \<open>a\<close> upwards, up to and excluding the first zero word.
  \<open>terminated\<close> says that there is such a zero word before the end of the array.
\<close>

definition mem_string :: "(word16 \<Rightarrow> word16) \<Rightarrow> nat \<Rightarrow> word16 list" where
  "mem_string m a = takeWhile (\<lambda>w. w \<noteq> 0) (map (\<lambda>c. m (of_nat c)) [a..<MEM_MAX])"

definition terminated :: "(word16 \<Rightarrow> word16) \<Rightarrow> nat \<Rightarrow> bool" where
  "terminated m a = list_ex (\<lambda>c. m (of_nat c) = 0) [a..<MEM_MAX]"

text \<open>The bytes of one word of a packed string: the low byte, then the high byte if it is not zero.\<close>

definition packed_bytes :: "word16 \<Rightarrow> 8 word list" where
  "packed_bytes w =
     ucast (w AND 0xFF) #
     (if (ucast (drop_bit 8 w) :: 8 word) \<noteq> 0 then [ucast (drop_bit 8 w)] else [])"

subsection \<open>Hosts and images for the examples\<close>

text \<open>A host with no key ever pending and standard input at end of file.\<close>

definition idle_host :: host where
  "idle_host = \<lparr>key_ready = (\<lambda>_. False), polls = 0, kbd_input = (\<lambda>_. - 1), reads = 0,
                 stdout = [], char_signed = True\<rparr>"

text \<open>A host on which the key \<open>c\<close> is always pending.\<close>

definition typing_host :: "int \<Rightarrow> host" where
  "typing_host c = \<lparr>key_ready = (\<lambda>_. True), polls = 0, kbd_input = (\<lambda>_. c), reads = 0,
                     stdout = [], char_signed = True\<rparr>"

text \<open>\<open>ADD R0, R0, #5\<close>; \<open>TRAP HALT\<close>.\<close>

definition add_halt_image :: "word16 \<Rightarrow> word16" where
  "add_halt_image = (\<lambda>_. 0)(0x3000 := 0x1025, 0x3001 := 0xF025)"

text \<open>
  \<open>ADD R1, R1, #-1\<close>; \<open>AND R3, R1, #-1\<close>; \<open>AND R4, R1, #5\<close>; \<open>ADD R5, R1, #5\<close>.
\<close>

definition imm_image :: "word16 \<Rightarrow> word16" where
  "imm_image = (\<lambda>_. 0)(0x3000 := 0x127F, 0x3001 := 0x567F, 0x3002 := 0x5865,
      0x3003 := 0x1A65)"

text \<open>\<open>BRz #-2\<close>, and \<open>BRp #3\<close>.\<close>

definition brz_image :: "word16 \<Rightarrow> word16" where
  "brz_image = (\<lambda>_. 0)(0x3000 := 0x05FE)"

definition brp_image :: "word16 \<Rightarrow> word16" where
  "brp_image = (\<lambda>_. 0)(0x3000 := 0x0203)"

text \<open>\<open>LDI R1, #1\<close>, with the pointer \<open>0x4000\<close> at \<open>0x3002\<close> and 42 at \<open>0x4000\<close>.\<close>

definition ldi_image :: "word16 \<Rightarrow> word16" where
  "ldi_image = (\<lambda>_. 0)(0x3000 := 0xA201, 0x3002 := 0x4000, 0x4000 := 0x002A)"

text \<open>A \<open>TRAP\<close> with the vector \<open>0xFF\<close>, then \<open>TRAP HALT\<close>.\<close>

definition bad_trap_image :: "word16 \<Rightarrow> word16" where
  "bad_trap_image = (\<lambda>_. 0)(0x3000 := 0xF0FF, 0x3001 := 0xF025)"

text \<open>The reserved opcode 13.\<close>

definition reserved_image :: "word16 \<Rightarrow> word16" where
  "reserved_image = (\<lambda>_. 0)(0x3000 := 0xD000)"

text \<open>\<open>LD R0, #1\<close>; \<open>JMP R0\<close>; the word \<open>0xFE00\<close>: a jump to the keyboard status address.\<close>

definition kbd_jump_image :: "word16 \<Rightarrow> word16" where
  "kbd_jump_image = (\<lambda>_. 0)(0x3000 := 0x2001, 0x3001 := 0xC000, 0x3002 := 0xFE00)"

text \<open>
  \<open>LD R0, #1\<close>; \<open>TRAP PUTS\<close>; the word \<open>0xFDFF\<close>; and the string \<open>HI!\<close> stored from
  \<open>0xFDFF\<close>, so that its second word lies at the keyboard status address.
\<close>

definition puts_image :: "word16 \<Rightarrow> word16" where
  "puts_image = (\<lambda>_. 0)(0x3000 := 0x2001, 0x3001 := 0xF022, 0x3002 := 0xFDFF,
      0xFDFF := 0x48, 0xFE00 := 0x49, 0xFE01 := 0x21)"

section \<open>Properties\<close>

subsection \<open>Sign extension\<close>

text \<open>On 16 bits, \<open>sign_extend\<close> sets every bit from \<open>bit_count\<close> upwards when the bit below is set.\<close>

lemma sign_extend_16:
  "sign_extend x n = (if bit x (n - 1) then x OR NOT (mask n) else x)"
proof -
  have "bit (ucast x :: 32 word) (n - 1) = bit x (n - 1)"
    by (auto simp add: bit_ucast_iff dest: bit_imp_le_length)
  then have a: "(drop_bit (n - 1) (ucast x :: 32 word) AND 1 \<noteq> 0) = bit x (n - 1)"
    by (simp add: and_one_eq bit_iff_odd_drop_bit mod_2_eq_odd)
  have m: "(0xFFFF :: 32 word) = mask 16"
    by (simp add: mask_eq_exp_minus_1)
  have b: "(ucast ((ucast x :: 32 word) OR push_bit n (0xFFFF :: 32 word)) :: 16 word)
             = x OR NOT (mask n)"
    unfolding m by (rule bit_word_eqI)
      (auto simp add: bit_ucast_iff bit_or_iff bit_push_bit_iff bit_not_iff bit_mask_iff)
  show ?thesis unfolding sign_extend_def a b ..
qed

lemma bit_sign_extend:
  assumes "0 < n" "bit x (n - 1) \<or> take_bit n x = x" "k < 16"
  shows "bit (sign_extend x n) k \<longleftrightarrow> bit x (min (n - 1) k)"
proof (cases "k < n")
  case True
  then have "min (n - 1) k = k" by simp
  then show ?thesis using True
    by (simp add: sign_extend_16 bit_or_iff bit_not_iff bit_mask_iff)
next
  case False
  then have m: "min (n - 1) k = n - 1" using assms(1) by simp
  show ?thesis
  proof (cases "bit x (n - 1)")
    case True
    then show ?thesis using False assms(3)
      by (simp add: sign_extend_16 bit_or_iff bit_not_iff bit_mask_iff m)
  next
    case clear: False
    then have "take_bit n x = x" using assms(2) by simp
    then have "bit x k = bit (take_bit n x) k" by simp
    then have nb: "\<not> bit x k" using False by (simp add: bit_take_bit_iff)
    show ?thesis unfolding m using nb clear by (simp add: sign_extend_16)
  qed
qed

lemma sint_sign_extend:
  assumes "0 < n" "n \<le> 16" "bit x (n - 1) \<or> take_bit n x = x"
  shows "sint (sign_extend x n) = twos_complement n x"
proof -
  have "sint (sign_extend x n) = signed_take_bit (n - 1) (uint x)"
  proof (rule bit_eqI)
    fix k
    have "bit (sint (sign_extend x n)) k = bit (sign_extend x n) (min 15 k)"
    proof -
      consider "k < 15" | "k = 15" | "16 \<le> k" by linarith
      then show ?thesis
      proof cases
        case 3
        then have "\<not> bit (sign_extend x n) k"
          using bit_imp_le_length [of "sign_extend x n" k] by auto
        with 3 show ?thesis by (simp add: bit_sint_iff)
      qed (simp_all add: bit_sint_iff)
    qed
    also have "\<dots> = bit x (min (n - 1) (min 15 k))"
      using assms by (simp add: bit_sign_extend)
    also have "min (n - 1) (min 15 k) = min (n - 1) k"
      using assms by linarith
    then have "bit x (min (n - 1) (min 15 k)) = bit x (min (n - 1) k)"
      by simp
    also have "\<dots> = bit (signed_take_bit (n - 1) (uint x)) k"
      by (auto simp add: bit_signed_take_bit_iff bit_uint_iff dest: bit_imp_le_length)
    finally show "bit (sint (sign_extend x n)) k = bit (signed_take_bit (n - 1) (uint x)) k" .
  qed
  also have "\<dots> = take_bit (Suc (n - 1)) (uint x)
                    - 2 ^ Suc (n - 1) * of_bool (bit (uint x) (n - 1))"
    by (rule signed_take_bit_eq_take_bit_minus)
  also have "\<dots> = twos_complement n x"
    using assms(1)
    by (auto simp add: twos_complement_def bit_uint_iff unsigned_take_bit_eq
        dest: bit_imp_le_length)
  finally show ?thesis .
qed

lemma twos_complement_signed:
  assumes "0 < n"
  shows "twos_complement n x = signed_take_bit (n - 1) (uint x)"
proof -
  have "signed_take_bit (n - 1) (uint x)
      = take_bit (Suc (n - 1)) (uint x) - 2 ^ Suc (n - 1) * of_bool (bit (uint x) (n - 1))"
    by (rule signed_take_bit_eq_take_bit_minus)
  also have "\<dots> = twos_complement n x"
    using assms
    by (auto simp add: twos_complement_def bit_uint_iff unsigned_take_bit_eq
        dest: bit_imp_le_length)
  finally show ?thesis by simp
qed


lemma take_bit_imm5: "take_bit 5 (instr AND 0x1F) = (instr AND 0x1F :: word16)"
proof -
  have m: "(0x1F :: word16) = mask 5" by (simp add: mask_eq_exp_minus_1)
  show ?thesis unfolding m by (simp flip: take_bit_eq_mask)
qed

lemma sign_extend_imm5:
  "sint (sign_extend (instr AND 0x1F) 5) = twos_complement 5 (instr AND 0x1F)"
  "sign_extend (instr AND 0x1F) 5 = word_of_int (twos_complement 5 (instr AND 0x1F))"
proof -
  show v: "sint (sign_extend (instr AND 0x1F) 5) = twos_complement 5 (instr AND 0x1F)"
    using sint_sign_extend [where n = 5 and x = "instr AND 0x1F"] take_bit_imm5 [of instr]
    by simp
  have "sign_extend (instr AND 0x1F) 5 = word_of_int (sint (sign_extend (instr AND 0x1F) 5))"
    by simp
  then show "sign_extend (instr AND 0x1F) 5 = word_of_int (twos_complement 5 (instr AND 0x1F))"
    unfolding v .
qed






subsection \<open>Condition flags\<close>

lemma one_bit_set_flags: "one_bit_set 1" "one_bit_set 2" "one_bit_set 4"
  by (simp_all add: one_bit_set_def upt_rec)

lemma drop_bit_15_iff: "drop_bit 15 (v :: word16) \<noteq> 0 \<longleftrightarrow> bit v 15"
proof -
  have "drop_bit 15 v = 0 \<longleftrightarrow> \<not> bit v 15"
  proof
    assume "drop_bit 15 v = 0"
    then have "\<not> bit (drop_bit 15 v) 0" by simp
    then show "\<not> bit v 15" by (simp add: bit_drop_bit_eq)
  next
    assume nb: "\<not> bit v 15"
    show "drop_bit 15 v = 0"
    proof (rule bit_word_eqI)
      fix k assume "k < LENGTH(16)"
      show "bit (drop_bit 15 v) k = bit (0 :: word16) k"
        using nb bit_imp_le_length [of v "15 + k"]
        by (cases k) (auto simp add: bit_drop_bit_eq)
    qed
  qed
  then show ?thesis by blast
qed

text \<open>
  Claim C3: after a general register \<open>r\<close> has been set to the word \<open>v\<close>,
  \<open>update_flags r\<close> leaves the condition flags at ZERO exactly when \<open>v = 0\<close>, at NEGATIVE
  exactly when bit 15 of \<open>v\<close> is set, and at POSITIVE in the remaining case; the flags
  word has exactly one bit set.
\<close>

theorem update_flags_classifies:
  assumes "r < 8"
  shows "(reg (update_flags r (set_reg r v s)) R_COND = FL_ZRO \<longleftrightarrow> v = 0)
       \<and> (reg (update_flags r (set_reg r v s)) R_COND = FL_NEG \<longleftrightarrow> bit v 15)
       \<and> (reg (update_flags r (set_reg r v s)) R_COND = FL_POS \<longleftrightarrow> v \<noteq> 0 \<and> \<not> bit v 15)
       \<and> one_bit_set (reg (update_flags r (set_reg r v s)) R_COND)"
proof -
  have z: "\<not> bit (0 :: word16) 15" by simp
  show ?thesis
    using assms z
    by (auto simp add: update_flags_def set_reg_def drop_bit_15_iff one_bit_set_flags)
qed

theorem update_flags_classifies_witness:
  "(3::nat) < 8
   \<and> reg (update_flags 3 (set_reg 3 0 (initial_state (\<lambda>_. 0) idle_host))) R_COND = FL_ZRO
   \<and> reg (update_flags 3 (set_reg 3 0x8001 (initial_state (\<lambda>_. 0) idle_host))) R_COND = FL_NEG
   \<and> reg (update_flags 3 (set_reg 3 0x7FFF (initial_state (\<lambda>_. 0) idle_host))) R_COND = FL_POS"
  using update_flags_classifies [of 3 0 "initial_state (\<lambda>_. 0) idle_host"]
    update_flags_classifies [of 3 "0x8001" "initial_state (\<lambda>_. 0) idle_host"]
    update_flags_classifies [of 3 "0x7FFF" "initial_state (\<lambda>_. 0) idle_host"]
  by (simp add: bit_iff_odd)

subsection \<open>Memory reads and the keyboard\<close>

text \<open>
  Claim C9: a read of the keyboard status address \<open>0xFE00\<close> returns 0 (and leaves 0 in
  the status word) when \<open>check_key\<close> reports nothing pending; when a key is pending it
  returns a word with bit 15 set and the keyboard data word at \<open>0xFE02\<close> holds what
  \<open>getchar\<close> returned; a read of any other address returns the stored word and leaves
  the whole state, host included, as it was.
\<close>

theorem mem_read_keyboard:
  "(address = MR_KBSR \<and> \<not> fst (check_key (io s)) \<longrightarrow>
      fst (mem_read address s) = 0 \<and> mem (snd (mem_read address s)) MR_KBSR = 0)
   \<and> (address = MR_KBSR \<and> fst (check_key (io s)) \<longrightarrow>
      bit (fst (mem_read address s)) 15
      \<and> mem (snd (mem_read address s)) MR_KBDR
          = word_of_int (fst (getchar (snd (check_key (io s))))))
   \<and> (address \<noteq> MR_KBSR \<longrightarrow> mem_read address s = (mem s address, s))"
  by (simp add: mem_read_def Let_def split: prod.splits)

theorem mem_read_keyboard_witness:
  "fst (mem_read MR_KBSR (initial_state (\<lambda>_. 0x1234) idle_host)) = 0
   \<and> fst (mem_read MR_KBSR (initial_state (\<lambda>_. 0x1234) (typing_host 97))) = 0x8000
   \<and> mem (snd (mem_read MR_KBSR (initial_state (\<lambda>_. 0x1234) (typing_host 97)))) MR_KBDR = 97
   \<and> mem_read 0x3000 (initial_state (\<lambda>_. 0x1234) (typing_host 97))
       = (0x1234, initial_state (\<lambda>_. 0x1234) (typing_host 97))"
  using mem_read_keyboard [of MR_KBSR "initial_state (\<lambda>_. 0x1234) idle_host"]
    mem_read_keyboard [of MR_KBSR "initial_state (\<lambda>_. 0x1234) (typing_host 97)"]
    mem_read_keyboard [of "0x3000" "initial_state (\<lambda>_. 0x1234) (typing_host 97)"]
  by (simp add: mem_read_def initial_state_def idle_host_def typing_host_def
      check_key_def getchar_def)

subsection \<open>Frame lemmas: what each operation leaves alone\<close>

lemma reg_field_lt8: "reg_field instr k < 8"
proof -
  have "drop_bit k instr AND 0x7 \<le> 0x7" by (rule word_and_le1)
  then have "unat (drop_bit k instr AND 0x7) \<le> unat (0x7 :: word16)"
    by (simp only: word_le_nat_alt)
  then show ?thesis by (simp add: reg_field_def)
qed

lemma low3_lt8: "unat ((instr :: word16) AND 0x7) < 8"
  using reg_field_lt8 [of instr 0] by (simp add: reg_field_def)

lemma update_flags_fields [simp]:
  "mem (update_flags r s) = mem s" "io (update_flags r s) = io s"
  "status (update_flags r s) = status s"
  by (simp_all add: update_flags_def)

lemma update_flags_reg: "r' \<noteq> R_COND \<Longrightarrow> reg (update_flags r s) r' = reg s r'"
  by (simp add: update_flags_def)

lemma update_flags_cond: "reg (update_flags r s) R_COND \<in> {FL_POS, FL_ZRO, FL_NEG}"
  by (simp add: update_flags_def)

lemma update_flags_idem:
  "r \<noteq> R_COND \<Longrightarrow> update_flags r (update_flags r s) = update_flags r s"
  by (simp add: update_flags_def)

lemma update_flags_set_reg:
  "r < 8 \<Longrightarrow> reg (update_flags r (set_reg r v s)) r = v"
  "r < 8 \<Longrightarrow> reg (update_flags r (set_reg r v s)) R_COND
      = (if v = 0 then FL_ZRO else if bit v 15 then FL_NEG else FL_POS)"
  by (auto simp add: update_flags_def set_reg_def drop_bit_15_iff)

lemma mem_read_fields [simp]:
  "reg (snd (mem_read a s)) = reg s" "status (snd (mem_read a s)) = status s"
  by (simp_all add: mem_read_def Let_def split: prod.splits)

lemma mem_read_regD:
  "mem_read a s = (v, s') \<Longrightarrow> reg s' = reg s \<and> status s' = status s"
  using mem_read_fields [of a s] by simp

lemma mem_read_plain: "a \<noteq> MR_KBSR \<Longrightarrow> mem_read a s = (mem s a, s)"
  by (simp add: mem_read_def)

lemma fetch_fields [simp]:
  "reg (snd (fetch s)) = (reg s)(R_PC := reg s R_PC + 1)" "status (snd (fetch s)) = status s"
  by (simp_all add: fetch_def Let_def set_reg_def)

lemma fetch_plain:
  "reg s R_PC \<noteq> MR_KBSR \<Longrightarrow> fetch s = (mem s (reg s R_PC), set_reg R_PC (reg s R_PC + 1) s)"
  by (simp add: fetch_def Let_def mem_read_plain set_reg_def)

lemma fetch_pair: "fst (fetch s) = instr \<Longrightarrow> fetch s = (instr, snd (fetch s))"
  by (metis prod.collapse)

lemma step_alt: "step s = exec (fst (fetch s)) (snd (fetch s))"
  by (simp add: step_def split: prod.splits)

lemma fetchD:
  assumes "fetch s = (instr, s1)"
  shows "step s = exec instr s1" "reg s1 = (reg s)(R_PC := reg s R_PC + 1)"
    "status s1 = status s"
  using assms fetch_fields [of s] by (simp_all add: step_def)

lemma exec_op:
  "drop_bit 12 instr = OP_ADD \<Longrightarrow> exec instr s = exec_ADD instr s"
  "drop_bit 12 instr = OP_AND \<Longrightarrow> exec instr s = exec_AND instr s"
  "drop_bit 12 instr = OP_BR \<Longrightarrow> exec instr s = exec_BR instr s"
  "drop_bit 12 instr = OP_LD \<Longrightarrow> exec instr s = exec_LD instr s"
  "drop_bit 12 instr = OP_LDI \<Longrightarrow> exec instr s = exec_LDI instr s"
  "drop_bit 12 instr = OP_TRAP \<Longrightarrow> exec instr s = exec_TRAP instr s"
  "drop_bit 12 instr = OP_RTI \<or> drop_bit 12 instr = OP_RES
     \<Longrightarrow> exec instr s = s\<lparr>status := Aborted\<rparr>"
  by (auto simp add: exec_def)

subsection \<open>The condition flags through the instructions\<close>

lemma cond_BR: "reg (exec_BR instr s) R_COND = reg s R_COND"
  by (simp add: exec_BR_def Let_def set_reg_def)

lemma cond_JMP: "reg (exec_JMP instr s) R_COND = reg s R_COND"
  by (simp add: exec_JMP_def Let_def set_reg_def)

lemma cond_JSR: "reg (exec_JSR instr s) R_COND = reg s R_COND"
  by (simp add: exec_JSR_def Let_def set_reg_def)

lemma cond_ST: "reg (exec_ST instr s) R_COND = reg s R_COND"
  by (simp add: exec_ST_def Let_def mem_write_def)

lemma cond_STI: "reg (exec_STI instr s) R_COND = reg s R_COND"
  by (auto simp add: exec_STI_def Let_def mem_write_def split: prod.splits dest: mem_read_regD)

lemma cond_STR: "reg (exec_STR instr s) R_COND = reg s R_COND"
  by (simp add: exec_STR_def Let_def mem_write_def)

lemma cond_TRAP: "reg (exec_TRAP instr s) R_COND = reg s R_COND"
  by (simp add: exec_TRAP_def Let_def set_reg_def split: prod.splits)

lemma exec_cond_unchanged:
  assumes "drop_bit 12 instr \<notin> {OP_ADD, OP_AND, OP_NOT, OP_LD, OP_LDI, OP_LDR, OP_LEA}"
  shows "reg (exec instr s) R_COND = reg s R_COND"
  using assms
  by (simp add: exec_def Let_def cond_BR cond_JMP cond_JSR cond_ST cond_STI cond_STR cond_TRAP)

lemma exec_flag_setting:
  assumes "drop_bit 12 instr \<in> {OP_ADD, OP_AND, OP_NOT, OP_LD, OP_LDI, OP_LDR, OP_LEA}"
  shows "\<exists>s'. exec instr s = update_flags (reg_field instr 9) s'"
proof -
  have "\<exists>s'. exec_ADD instr s = update_flags (reg_field instr 9) s'"
    "\<exists>s'. exec_AND instr s = update_flags (reg_field instr 9) s'"
    "\<exists>s'. exec_NOT instr s = update_flags (reg_field instr 9) s'"
    "\<exists>s'. exec_LD instr s = update_flags (reg_field instr 9) s'"
    "\<exists>s'. exec_LDI instr s = update_flags (reg_field instr 9) s'"
    "\<exists>s'. exec_LDR instr s = update_flags (reg_field instr 9) s'"
    "\<exists>s'. exec_LEA instr s = update_flags (reg_field instr 9) s'"
    by (auto simp add: exec_ADD_def exec_AND_def exec_NOT_def exec_LD_def exec_LDI_def
        exec_LDR_def exec_LEA_def Let_def split: prod.splits)
  then show ?thesis using assms by (auto simp add: exec_def Let_def)
qed

lemma exec_flags_current:
  assumes "drop_bit 12 instr \<in> {OP_ADD, OP_AND, OP_NOT, OP_LD, OP_LDI, OP_LDR, OP_LEA}"
  shows "update_flags (reg_field instr 9) (exec instr s) = exec instr s"
proof -
  have "reg_field instr 9 \<noteq> R_COND" using reg_field_lt8 [of instr 9] by simp
  then show ?thesis
    using exec_flag_setting [OF assms, of s] by (auto simp add: update_flags_idem)
qed

lemma exec_cond_valid:
  assumes "reg s R_COND \<in> {FL_POS, FL_ZRO, FL_NEG}"
  shows "reg (exec instr s) R_COND \<in> {FL_POS, FL_ZRO, FL_NEG}"
proof (cases "drop_bit 12 instr \<in> {OP_ADD, OP_AND, OP_NOT, OP_LD, OP_LDI, OP_LDR, OP_LEA}")
  case True
  then obtain s' where "exec instr s = update_flags (reg_field instr 9) s'"
    using exec_flag_setting by blast
  then show ?thesis using update_flags_cond [of "reg_field instr 9" s'] by simp
next
  case False
  then show ?thesis using assms exec_cond_unchanged [of instr s] by simp
qed

lemma step_cond_valid:
  assumes "reg s R_COND \<in> {FL_POS, FL_ZRO, FL_NEG}"
  shows "reg (step s) R_COND \<in> {FL_POS, FL_ZRO, FL_NEG}"
proof -
  have "reg (snd (fetch s)) R_COND \<in> {FL_POS, FL_ZRO, FL_NEG}" using assms by simp
  then show ?thesis
    unfolding step_alt by (rule exec_cond_valid)
qed

lemma run_cond_valid:
  "reg s R_COND \<in> {FL_POS, FL_ZRO, FL_NEG}
     \<Longrightarrow> reg (run n s) R_COND \<in> {FL_POS, FL_ZRO, FL_NEG}"
proof (induction n arbitrary: s)
  case 0
  then show ?case by simp
next
  case (Suc n)
  then show ?case using step_cond_valid [of s] by simp
qed

text \<open>
  Claim C5: in every state that the execution loop reaches from the initial state (after
  any number \<open>n\<close> of passes, for any loaded memory and any host) the condition flags
  are one of POSITIVE, ZERO, NEGATIVE, a word with exactly one bit set; every pass of the
  loop preserves this; after an instruction with opcode ADD, AND, NOT, LD, LDI, LDR or LEA
  the flags are those that \<open>update_flags\<close> computes from the destination register; and
  an instruction with any other opcode leaves the flags as they were.
\<close>

theorem flags_invariant:
  "reg (run n (initial_state m h)) R_COND \<in> {FL_POS, FL_ZRO, FL_NEG}
   \<and> one_bit_set (reg (run n (initial_state m h)) R_COND)
   \<and> (reg s R_COND \<in> {FL_POS, FL_ZRO, FL_NEG} \<longrightarrow>
        reg (step s) R_COND \<in> {FL_POS, FL_ZRO, FL_NEG})
   \<and> (drop_bit 12 (fst (fetch s)) \<in> {OP_ADD, OP_AND, OP_NOT, OP_LD, OP_LDI, OP_LDR, OP_LEA} \<longrightarrow>
        update_flags (reg_field (fst (fetch s)) 9) (step s) = step s)
   \<and> (drop_bit 12 (fst (fetch s)) \<notin> {OP_ADD, OP_AND, OP_NOT, OP_LD, OP_LDI, OP_LDR, OP_LEA} \<longrightarrow>
        reg (step s) R_COND = reg s R_COND)"
proof -
  have "reg (initial_state m h) R_COND \<in> {FL_POS, FL_ZRO, FL_NEG}"
    by (simp add: initial_state_def)
  then have a: "reg (run n (initial_state m h)) R_COND \<in> {FL_POS, FL_ZRO, FL_NEG}"
    by (rule run_cond_valid)
  then have b: "one_bit_set (reg (run n (initial_state m h)) R_COND)"
    using one_bit_set_flags by auto
  have c: "reg s R_COND \<in> {FL_POS, FL_ZRO, FL_NEG} \<longrightarrow>
      reg (step s) R_COND \<in> {FL_POS, FL_ZRO, FL_NEG}"
    using step_cond_valid by blast
  have d: "drop_bit 12 (fst (fetch s)) \<in> {OP_ADD, OP_AND, OP_NOT, OP_LD, OP_LDI, OP_LDR, OP_LEA} \<longrightarrow>
      update_flags (reg_field (fst (fetch s)) 9) (step s) = step s"
    unfolding step_alt using exec_flags_current by blast
  have e: "drop_bit 12 (fst (fetch s)) \<notin> {OP_ADD, OP_AND, OP_NOT, OP_LD, OP_LDI, OP_LDR, OP_LEA} \<longrightarrow>
      reg (step s) R_COND = reg s R_COND"
    unfolding step_alt using exec_cond_unchanged [of "fst (fetch s)" "snd (fetch s)"] by simp
  from a b c d e show ?thesis by blast
qed

theorem flags_invariant_witness:
  "drop_bit 12 (fst (fetch (initial_state add_halt_image idle_host))) = OP_ADD
   \<and> reg (step (initial_state add_halt_image idle_host)) R_R0 = 5
   \<and> reg (step (initial_state add_halt_image idle_host)) R_COND = FL_POS
   \<and> update_flags 0 (step (initial_state add_halt_image idle_host))
       = step (initial_state add_halt_image idle_host)
   \<and> drop_bit 12 (fst (fetch (run 1 (initial_state add_halt_image idle_host)))) = OP_TRAP
   \<and> reg (step (run 1 (initial_state add_halt_image idle_host))) R_COND
       = reg (run 1 (initial_state add_halt_image idle_host)) R_COND
   \<and> status (run 2 (initial_state add_halt_image idle_host)) = Halted
   \<and> reg (run 2 (initial_state add_halt_image idle_host)) R_COND \<in> {FL_POS, FL_ZRO, FL_NEG}"
proof -
  let ?s0 = "initial_state add_halt_image idle_host"
  have a: "drop_bit 12 (fst (fetch ?s0)) = OP_ADD" "reg_field (fst (fetch ?s0)) 9 = 0"
    "reg (step ?s0) R_R0 = 5" "reg (step ?s0) R_COND = FL_POS"
    "drop_bit 12 (fst (fetch (run 1 ?s0))) = OP_TRAP"
    "status (run 2 ?s0) = Halted"
    by code_simp+
  from flags_invariant [of 2 add_halt_image idle_host ?s0] a(1,2)
  have b: "update_flags 0 (step ?s0) = step ?s0"
    "reg (run 2 ?s0) R_COND \<in> {FL_POS, FL_ZRO, FL_NEG}" by simp_all
  from flags_invariant [of 2 add_halt_image idle_host "run 1 ?s0"] a(5)
  have c: "reg (step (run 1 ?s0)) R_COND = reg (run 1 ?s0) R_COND" by simp
  from a b c show ?thesis by blast
qed

subsection \<open>ADD and AND\<close>

lemma uint_add_of_int:
  "uint ((a :: word16) + word_of_int k) = (uint a + k) mod 2 ^ 16"
proof -
  have "uint (a + word_of_int k) = (uint a + uint (word_of_int k :: word16)) mod 2 ^ 16"
    by (simp add: uint_word_ariths)
  also have "uint (word_of_int k :: word16) = k mod 2 ^ 16"
    by (simp add: uint_word_of_int)
  finally show ?thesis by (simp add: mod_add_right_eq)
qed

text \<open>
  Claim C6: an ADD or AND whose immediate flag (bit 5) is set takes as its second operand
  the sign-extended low five bits of the instruction, that is the 16-bit word of the
  two's-complement value of the five-bit field (a number from -16 to 15); the field
  \<open>0b11111\<close> is -1, the word \<open>0xFFFF\<close>, and not 31. The result of ADD, in immediate and
  in register mode, is the sum modulo \<open>2^16\<close>, and the machine goes on running.
\<close>

theorem add_and_immediate:
  assumes "fetch s = (instr, s1)"
  shows "(drop_bit 12 instr = OP_ADD \<and> drop_bit 5 instr AND 0x1 \<noteq> 0 \<longrightarrow>
           reg (step s) (reg_field instr 9)
             = reg s (reg_field instr 6) + sign_extend (instr AND 0x1F) 5
         \<and> reg (step s) (reg_field instr 9)
             = reg s (reg_field instr 6) + word_of_int (twos_complement 5 (instr AND 0x1F))
         \<and> uint (reg (step s) (reg_field instr 9))
             = (uint (reg s (reg_field instr 6)) + twos_complement 5 (instr AND 0x1F))
                 mod 2 ^ 16
         \<and> uint (reg (step s) (reg_field instr 9))
             = (uint (reg s (reg_field instr 6)) + uint (sign_extend (instr AND 0x1F) 5))
                 mod 2 ^ 16
         \<and> status (step s) = status s)
       \<and> (drop_bit 12 instr = OP_ADD \<and> drop_bit 5 instr AND 0x1 = 0 \<longrightarrow>
           uint (reg (step s) (reg_field instr 9))
             = (uint (reg s (reg_field instr 6)) + uint (reg s (unat (instr AND 0x7))))
                 mod 2 ^ 16
         \<and> status (step s) = status s)
       \<and> (drop_bit 12 instr = OP_AND \<and> drop_bit 5 instr AND 0x1 \<noteq> 0 \<longrightarrow>
           reg (step s) (reg_field instr 9)
             = reg s (reg_field instr 6) AND sign_extend (instr AND 0x1F) 5
         \<and> reg (step s) (reg_field instr 9)
             = reg s (reg_field instr 6) AND word_of_int (twos_complement 5 (instr AND 0x1F)))
       \<and> sint (sign_extend (instr AND 0x1F) 5) = twos_complement 5 (instr AND 0x1F)
       \<and> - 16 \<le> twos_complement 5 (instr AND 0x1F) \<and> twos_complement 5 (instr AND 0x1F) \<le> 15
       \<and> (instr AND 0x1F = 0x1F \<longrightarrow>
            sign_extend (instr AND 0x1F) 5 = 0xFFFF \<and> twos_complement 5 (instr AND 0x1F) = - 1)"
proof -
  note f = fetchD [OF assms]
  have r: "reg_field instr 9 < 8" "reg_field instr 6 < 8" "unat (instr AND 0x7) < 8"
    by (simp_all add: reg_field_lt8 low3_lt8)
  have add_imm: "drop_bit 12 instr = OP_ADD \<and> drop_bit 5 instr AND 0x1 \<noteq> 0 \<longrightarrow>
      reg (step s) (reg_field instr 9)
        = reg s (reg_field instr 6) + sign_extend (instr AND 0x1F) 5
      \<and> status (step s) = status s"
    using r by (simp add: f exec_op exec_ADD_def Let_def update_flags_reg set_reg_def)
  have add_reg: "drop_bit 12 instr = OP_ADD \<and> drop_bit 5 instr AND 0x1 = 0 \<longrightarrow>
      reg (step s) (reg_field instr 9)
        = reg s (reg_field instr 6) + reg s (unat (instr AND 0x7))
      \<and> status (step s) = status s"
    using r by (simp add: f exec_op exec_ADD_def Let_def update_flags_reg set_reg_def)
  have and_imm: "drop_bit 12 instr = OP_AND \<and> drop_bit 5 instr AND 0x1 \<noteq> 0 \<longrightarrow>
      reg (step s) (reg_field instr 9)
        = reg s (reg_field instr 6) AND sign_extend (instr AND 0x1F) 5"
    using r by (simp add: f exec_op exec_AND_def Let_def update_flags_reg set_reg_def)
  note v = sign_extend_imm5 [of instr]
  have add_sem: "drop_bit 12 instr = OP_ADD \<and> drop_bit 5 instr AND 0x1 \<noteq> 0 \<longrightarrow>
      reg (step s) (reg_field instr 9)
        = reg s (reg_field instr 6) + word_of_int (twos_complement 5 (instr AND 0x1F))
      \<and> uint (reg (step s) (reg_field instr 9))
        = (uint (reg s (reg_field instr 6)) + twos_complement 5 (instr AND 0x1F)) mod 2 ^ 16"
  proof (intro impI)
    assume "drop_bit 12 instr = OP_ADD \<and> drop_bit 5 instr AND 0x1 \<noteq> 0"
    with add_imm have e: "reg (step s) (reg_field instr 9)
        = reg s (reg_field instr 6) + word_of_int (twos_complement 5 (instr AND 0x1F))"
      unfolding v(2) by blast
    have "uint (reg s (reg_field instr 6) + word_of_int (twos_complement 5 (instr AND 0x1F)))
        = (uint (reg s (reg_field instr 6)) + twos_complement 5 (instr AND 0x1F)) mod 2 ^ 16"
      by (rule uint_add_of_int)
    with e show "reg (step s) (reg_field instr 9)
        = reg s (reg_field instr 6) + word_of_int (twos_complement 5 (instr AND 0x1F))
      \<and> uint (reg (step s) (reg_field instr 9))
        = (uint (reg s (reg_field instr 6)) + twos_complement 5 (instr AND 0x1F)) mod 2 ^ 16"
      by simp
  qed
  have add_wrap: "drop_bit 12 instr = OP_ADD \<and> drop_bit 5 instr AND 0x1 \<noteq> 0 \<longrightarrow>
      uint (reg (step s) (reg_field instr 9))
        = (uint (reg s (reg_field instr 6)) + uint (sign_extend (instr AND 0x1F) 5)) mod 2 ^ 16"
    using add_imm by (simp add: uint_word_ariths)
  have reg_wrap: "drop_bit 12 instr = OP_ADD \<and> drop_bit 5 instr AND 0x1 = 0 \<longrightarrow>
      uint (reg (step s) (reg_field instr 9))
        = (uint (reg s (reg_field instr 6)) + uint (reg s (unat (instr AND 0x7)))) mod 2 ^ 16"
    using add_reg by (simp add: uint_word_ariths)
  have and_sem: "drop_bit 12 instr = OP_AND \<and> drop_bit 5 instr AND 0x1 \<noteq> 0 \<longrightarrow>
      reg (step s) (reg_field instr 9)
        = reg s (reg_field instr 6) AND word_of_int (twos_complement 5 (instr AND 0x1F))"
    using and_imm unfolding v(2) .
  have "twos_complement 5 (instr AND 0x1F) = signed_take_bit 4 (uint (instr AND 0x1F))"
    using twos_complement_signed [of 5 "instr AND 0x1F"] by simp
  then have range: "- 16 \<le> twos_complement 5 (instr AND 0x1F)"
    "twos_complement 5 (instr AND 0x1F) \<le> 15"
    using signed_take_bit_int_greater_eq_minus_exp [of 4 "uint (instr AND 0x1F)"]
      signed_take_bit_int_less_exp [of 4 "uint (instr AND 0x1F)"]
    by simp_all
  have ones: "instr AND 0x1F = 0x1F \<longrightarrow>
      sign_extend (instr AND 0x1F) 5 = 0xFFFF \<and> twos_complement 5 (instr AND 0x1F) = - 1"
    by (simp add: sign_extend_def twos_complement_def bit_iff_odd)
  from add_imm add_sem add_wrap add_reg reg_wrap and_imm and_sem v(1) range ones
  show ?thesis by blast
qed

theorem add_and_immediate_witness:
  "fst (fetch (initial_state imm_image idle_host)) = 0x127F
   \<and> drop_bit 12 (0x127F :: word16) = OP_ADD \<and> drop_bit 5 (0x127F :: word16) AND 0x1 \<noteq> 0
   \<and> (0x127F :: word16) AND 0x1F = 0x1F
   \<and> sign_extend (0x127F AND 0x1F) 5 = 0xFFFF
   \<and> reg (step (initial_state imm_image idle_host)) 1 = 0xFFFF
   \<and> fst (fetch (run 1 (initial_state imm_image idle_host))) = 0x567F
   \<and> drop_bit 12 (0x567F :: word16) = OP_AND \<and> drop_bit 5 (0x567F :: word16) AND 0x1 \<noteq> 0
   \<and> reg (run 1 (initial_state imm_image idle_host)) 1 = 0xFFFF
   \<and> reg (step (run 1 (initial_state imm_image idle_host))) 3 = 0xFFFF
   \<and> fst (fetch (run 2 (initial_state imm_image idle_host))) = 0x5865
   \<and> drop_bit 12 (0x5865 :: word16) = OP_AND \<and> drop_bit 5 (0x5865 :: word16) AND 0x1 \<noteq> 0
   \<and> twos_complement 5 (0x5865 AND 0x1F) = 5
   \<and> reg (run 2 (initial_state imm_image idle_host)) 1 = 0xFFFF
   \<and> reg (step (run 2 (initial_state imm_image idle_host))) 4 = 5
   \<and> fst (fetch (run 3 (initial_state imm_image idle_host))) = 0x1A65
   \<and> drop_bit 12 (0x1A65 :: word16) = OP_ADD \<and> drop_bit 5 (0x1A65 :: word16) AND 0x1 \<noteq> 0
   \<and> twos_complement 5 (0x1A65 AND 0x1F) = 5
   \<and> sint (sign_extend (0x1A65 AND 0x1F) 5) = 5
   \<and> reg (run 3 (initial_state imm_image idle_host)) 1 = 0xFFFF
   \<and> reg (step (run 3 (initial_state imm_image idle_host))) 5 = 4
   \<and> status (step (run 3 (initial_state imm_image idle_host))) = Running"
proof -
  let ?s0 = "initial_state imm_image idle_host"
  have a: "fst (fetch ?s0) = 0x127F" "fst (fetch (run 1 ?s0)) = 0x567F"
    "fst (fetch (run 2 ?s0)) = 0x5865" "fst (fetch (run 3 ?s0)) = 0x1A65"
    "reg ?s0 1 = 0" "reg (run 1 ?s0) 1 = 0xFFFF" "reg (run 2 ?s0) 1 = 0xFFFF"
    "reg (run 3 ?s0) 1 = 0xFFFF" "status (run 3 ?s0) = Running"
    by code_simp+
  have b: "drop_bit 12 (0x127F :: word16) = OP_ADD \<and> drop_bit 5 (0x127F :: word16) AND 0x1 \<noteq> 0"
    "drop_bit 12 (0x567F :: word16) = OP_AND \<and> drop_bit 5 (0x567F :: word16) AND 0x1 \<noteq> 0"
    "drop_bit 12 (0x5865 :: word16) = OP_AND \<and> drop_bit 5 (0x5865 :: word16) AND 0x1 \<noteq> 0"
    "drop_bit 12 (0x1A65 :: word16) = OP_ADD \<and> drop_bit 5 (0x1A65 :: word16) AND 0x1 \<noteq> 0"
    "(0x127F :: word16) AND 0x1F = 0x1F"
    by simp_all
  have g: "reg_field 0x127F 9 = 1" "reg_field 0x127F 6 = 1"
    "reg_field 0x567F 9 = 3" "reg_field 0x567F 6 = 1"
    "reg_field 0x5865 9 = 4" "reg_field 0x5865 6 = 1"
    "reg_field 0x1A65 9 = 5" "reg_field 0x1A65 6 = 1"
    by (simp_all add: reg_field_def)
  have k: "twos_complement 5 (0x127F AND 0x1F) = - 1" "twos_complement 5 (0x567F AND 0x1F) = - 1"
    "twos_complement 5 (0x5865 AND 0x1F) = 5" "twos_complement 5 (0x1A65 AND 0x1F) = 5"
    by (simp_all add: twos_complement_def bit_iff_odd)
  note t1 = add_and_immediate [OF fetch_pair [OF a(1)]]
  note t2 = add_and_immediate [OF fetch_pair [OF a(2)]]
  note t3 = add_and_immediate [OF fetch_pair [OF a(3)]]
  note t4 = add_and_immediate [OF fetch_pair [OF a(4)]]
  from t1 b(5) have c: "sign_extend (0x127F AND 0x1F) 5 = 0xFFFF" by blast
  from t1 b(1) have "reg (step ?s0) (reg_field 0x127F 9)
      = reg ?s0 (reg_field 0x127F 6) + word_of_int (twos_complement 5 (0x127F AND 0x1F))"
    by blast
  then have d1: "reg (step ?s0) 1 = 0xFFFF" unfolding g a k by simp
  from t2 b(2) have "reg (step (run 1 ?s0)) (reg_field 0x567F 9)
      = reg (run 1 ?s0) (reg_field 0x567F 6)
          AND word_of_int (twos_complement 5 (0x567F AND 0x1F))"
    by blast
  then have d2: "reg (step (run 1 ?s0)) 3 = 0xFFFF" unfolding g a k by simp
  from t3 b(3) have "reg (step (run 2 ?s0)) (reg_field 0x5865 9)
      = reg (run 2 ?s0) (reg_field 0x5865 6)
          AND word_of_int (twos_complement 5 (0x5865 AND 0x1F))"
    by blast
  then have d3: "reg (step (run 2 ?s0)) 4 = 5" unfolding g a k by simp
  from t4 b(4) have "reg (step (run 3 ?s0)) (reg_field 0x1A65 9)
      = reg (run 3 ?s0) (reg_field 0x1A65 6) + word_of_int (twos_complement 5 (0x1A65 AND 0x1F))"
    "status (step (run 3 ?s0)) = status (run 3 ?s0)"
    by blast+
  then have d4: "reg (step (run 3 ?s0)) 5 = 4" "status (step (run 3 ?s0)) = Running"
    unfolding g a k by simp_all
  from t4 have e: "sint (sign_extend (0x1A65 AND 0x1F) 5) = 5" unfolding k by blast
  from a b c k d1 d2 d3 d4 e show ?thesis by blast
qed

subsection \<open>BR\<close>

text \<open>
  Claim C8: for a BR instruction, when the AND of the three-bit condition mask (bits
  11..9) with the condition flags is not zero, the program counter becomes the
  incremented program counter plus the sign-extended low nine bits of the instruction;
  when it is zero, the program counter is the incremented one; the flags are unchanged
  in both cases.
\<close>

theorem br_semantics:
  assumes "fetch s = (instr, s1)" and "drop_bit 12 instr = OP_BR"
  shows "((drop_bit 9 instr AND 0x7) AND reg s R_COND \<noteq> 0 \<longrightarrow>
            reg (step s) R_PC = reg s R_PC + 1 + sign_extend (instr AND 0x1FF) 9)
       \<and> ((drop_bit 9 instr AND 0x7) AND reg s R_COND = 0 \<longrightarrow>
            reg (step s) R_PC = reg s R_PC + 1)
       \<and> reg (step s) R_COND = reg s R_COND"
  by (simp add: fetchD [OF assms(1)] exec_op assms(2) exec_BR_def Let_def set_reg_def)

theorem br_semantics_witness:
  "fst (fetch (initial_state brz_image idle_host)) = 0x05FE
   \<and> drop_bit 12 (0x05FE :: word16) = OP_BR
   \<and> (drop_bit 9 (0x05FE :: word16) AND 0x7) AND reg (initial_state brz_image idle_host) R_COND \<noteq> 0
   \<and> reg (step (initial_state brz_image idle_host)) R_PC = 0x2FFF
   \<and> fst (fetch (initial_state brp_image idle_host)) = 0x0203
   \<and> drop_bit 12 (0x0203 :: word16) = OP_BR
   \<and> (drop_bit 9 (0x0203 :: word16) AND 0x7) AND reg (initial_state brp_image idle_host) R_COND = 0
   \<and> reg (step (initial_state brp_image idle_host)) R_PC = 0x3001
   \<and> reg (step (initial_state brp_image idle_host)) R_COND = FL_ZRO"
proof -
  let ?z = "initial_state brz_image idle_host" and ?p = "initial_state brp_image idle_host"
  have a: "fst (fetch ?z) = 0x05FE" "fst (fetch ?p) = 0x0203"
    by code_simp+
  have r: "reg ?z R_COND = FL_ZRO" "reg ?z R_PC = PC_START"
    "reg ?p R_COND = FL_ZRO" "reg ?p R_PC = PC_START"
    by (simp_all add: initial_state_def)
  have b: "drop_bit 12 (0x05FE :: word16) = OP_BR" "drop_bit 12 (0x0203 :: word16) = OP_BR"
    "(drop_bit 9 (0x05FE :: word16) AND 0x7) AND reg ?z R_COND \<noteq> 0"
    "(drop_bit 9 (0x0203 :: word16) AND 0x7) AND reg ?p R_COND = 0"
    unfolding r by simp_all
  have x: "sign_extend (0x05FE AND 0x1FF) 9 = 0xFFFE"
    by (simp add: sign_extend_def)
  note t1 = br_semantics [OF fetch_pair [OF a(1)] b(1)]
  note t2 = br_semantics [OF fetch_pair [OF a(2)] b(2)]
  from t1 b(3) have "reg (step ?z) R_PC = reg ?z R_PC + 1 + sign_extend (0x05FE AND 0x1FF) 9"
    by blast
  then have c: "reg (step ?z) R_PC = 0x2FFF" unfolding r x by simp
  from t2 b(4) have "reg (step ?p) R_PC = reg ?p R_PC + 1" by blast
  then have d: "reg (step ?p) R_PC = 0x3001" unfolding r by simp
  from t2 have "reg (step ?p) R_COND = reg ?p R_COND" by blast
  then have e: "reg (step ?p) R_COND = FL_ZRO" unfolding r .
  from a b c d e show ?thesis by blast
qed

subsection \<open>LDI\<close>

text \<open>
  Claim C7: for an LDI instruction, with \<open>a\<close> the word that \<open>mem_read\<close> returns at the
  incremented program counter plus the sign-extended nine-bit offset and \<open>v\<close> the word
  that \<open>mem_read\<close> then returns at the address \<open>a\<close>, the destination register receives
  \<open>v\<close> and the flags are those of \<open>v\<close>; LD with the same fields would load \<open>a\<close>. Where
  neither address is the keyboard status address, \<open>a\<close> and \<open>v\<close> are the stored words
  \<open>Memory[PC + offset]\<close> and \<open>Memory[Memory[PC + offset]]\<close>.
\<close>

theorem ldi_semantics:
  assumes "fetch s = (instr, s1)" and "drop_bit 12 instr = OP_LDI"
    and "mem_read (reg s R_PC + 1 + sign_extend (instr AND 0x1FF) 9) s1 = (a, s2)"
    and "mem_read a s2 = (v, s3)"
  shows "reg (step s) (reg_field instr 9) = v
       \<and> reg (step s) R_COND = (if v = 0 then FL_ZRO else if bit v 15 then FL_NEG else FL_POS)
       \<and> reg (exec_LD instr s1) (reg_field instr 9) = a
       \<and> (reg s R_PC + 1 + sign_extend (instr AND 0x1FF) 9 \<noteq> MR_KBSR \<and> a \<noteq> MR_KBSR \<longrightarrow>
            a = mem s1 (reg s R_PC + 1 + sign_extend (instr AND 0x1FF) 9) \<and> v = mem s1 a)"
proof -
  note f = fetchD [OF assms(1)]
  have r: "reg_field instr 9 < 8" by (rule reg_field_lt8)
  have ldi: "step s = update_flags (reg_field instr 9) (set_reg (reg_field instr 9) v s3)"
    using assms(3,4) by (simp add: f exec_op assms(2) exec_LDI_def Let_def)
  have ld: "exec_LD instr s1
      = update_flags (reg_field instr 9) (set_reg (reg_field instr 9) a s2)"
    using assms(3) by (simp add: f exec_LD_def Let_def)
  have plain:
    "reg s R_PC + 1 + sign_extend (instr AND 0x1FF) 9 \<noteq> MR_KBSR \<and> a \<noteq> MR_KBSR \<longrightarrow>
       a = mem s1 (reg s R_PC + 1 + sign_extend (instr AND 0x1FF) 9) \<and> v = mem s1 a"
    using assms(3,4) by (auto simp add: mem_read_plain)
  show ?thesis
    using r plain by (simp add: ldi ld update_flags_set_reg)
qed

theorem ldi_semantics_witness:
  "fst (fetch (initial_state ldi_image idle_host)) = 0xA201
   \<and> drop_bit 12 (0xA201 :: word16) = OP_LDI
   \<and> reg (step (initial_state ldi_image idle_host)) 1 = 0x002A
   \<and> reg (step (initial_state ldi_image idle_host)) R_COND = FL_POS
   \<and> reg (exec_LD 0xA201 (snd (fetch (initial_state ldi_image idle_host)))) 1 = 0x4000"
proof -
  let ?s0 = "initial_state ldi_image idle_host"
  let ?s1 = "snd (fetch ?s0)"
  have a: "fst (fetch ?s0) = 0xA201" by code_simp
  have b: "drop_bit 12 (0xA201 :: word16) = OP_LDI" "reg_field 0xA201 9 = 1"
    by (simp_all add: reg_field_def)
  have x: "reg ?s0 R_PC + 1 + sign_extend (0xA201 AND 0x1FF) 9 = 0x3002"
    by (simp add: initial_state_def sign_extend_def)
  have s1: "?s1 = set_reg R_PC 0x3001 ?s0"
    by (simp add: fetch_plain initial_state_def)
  have m1: "mem_read 0x3002 ?s1 = (0x4000, ?s1)"
    unfolding s1 by (simp add: mem_read_plain set_reg_def initial_state_def ldi_image_def)
  have m2: "mem_read 0x4000 ?s1 = (0x002A, ?s1)"
    unfolding s1 by (simp add: mem_read_plain set_reg_def initial_state_def ldi_image_def)
  note t = ldi_semantics [OF fetch_pair [OF a] b(1), unfolded x, OF m1 m2]
  from t have c: "reg (step ?s0) 1 = 0x002A" unfolding b by blast
  from t have "reg (step ?s0) R_COND
      = (if (0x002A :: word16) = 0 then FL_ZRO
         else if bit (0x002A :: word16) 15 then FL_NEG else FL_POS)"
    by blast
  then have d: "reg (step ?s0) R_COND = FL_POS" by (simp add: bit_iff_odd)
  from t have e: "reg (exec_LD 0xA201 ?s1) 1 = 0x4000" unfolding b by blast
  from a b c d e show ?thesis by blast
qed

subsection \<open>Undefined opcodes\<close>

text \<open>
  Claim C2, as stated: it fails when the instruction is fetched from the keyboard status
  address. The fetch is a \<open>mem_read\<close>, which at \<open>0xFE00\<close> polls the keyboard and
  rewrites the status and data words before the opcode is looked at. After \<open>LD R0\<close>,
  \<open>JMP R0\<close> to \<open>0xFE00\<close> with a key pending, the fetched word is the status word
  \<open>0x8000\<close> itself: opcode 8. The machine aborts, and two memory words differ from the
  state before the fetch.
\<close>

theorem fetch_at_keyboard_status_counterexample:
  "status (run 2 (initial_state kbd_jump_image (typing_host 97))) = Running
   \<and> reg (run 2 (initial_state kbd_jump_image (typing_host 97))) R_PC = MR_KBSR
   \<and> drop_bit 12 (fst (fetch (run 2 (initial_state kbd_jump_image (typing_host 97))))) = OP_RTI
   \<and> status (step (run 2 (initial_state kbd_jump_image (typing_host 97)))) = Aborted
   \<and> mem (run 2 (initial_state kbd_jump_image (typing_host 97))) MR_KBSR = 0
   \<and> mem (step (run 2 (initial_state kbd_jump_image (typing_host 97)))) MR_KBSR = 0x8000
   \<and> mem (run 2 (initial_state kbd_jump_image (typing_host 97))) MR_KBDR = 0
   \<and> mem (step (run 2 (initial_state kbd_jump_image (typing_host 97)))) MR_KBDR = 97"
  by code_simp

text \<open>
  Claim C2, amended: when the fetched instruction has opcode 8 (RTI) or 13 (reserved),
  the pass ends in the aborted state, and the state is the state that the fetch left,
  with nothing changed by the instruction itself: every general register and the flags
  are as before the fetch, the program counter is incremented, and every memory word
  other than the two keyboard words is as before the fetch. When the instruction was not
  fetched from the keyboard status address \<open>0xFE00\<close>, the whole memory and the host are
  as before the fetch, so that the increment of the program counter is the only change.
\<close>

theorem undefined_opcode_aborts:
  assumes "fetch s = (instr, s1)"
    and "drop_bit 12 instr = OP_RTI \<or> drop_bit 12 instr = OP_RES"
  shows "status (step s) = Aborted
       \<and> step s = s1\<lparr>status := Aborted\<rparr>
       \<and> reg (step s) = (reg s)(R_PC := reg s R_PC + 1)
       \<and> (\<forall>a. a \<noteq> MR_KBSR \<and> a \<noteq> MR_KBDR \<longrightarrow> mem (step s) a = mem s a)
       \<and> (reg s R_PC \<noteq> MR_KBSR \<longrightarrow> mem (step s) = mem s \<and> io (step s) = io s)"
proof -
  note f = fetchD [OF assms(1)]
  have st: "step s = s1\<lparr>status := Aborted\<rparr>"
    using assms(2) by (simp add: f exec_op)
  have s1: "s1 = snd (mem_read (reg s R_PC) (set_reg R_PC (reg s R_PC + 1) s))"
    using assms(1) by (simp add: fetch_def Let_def)
  have m: "\<forall>a. a \<noteq> MR_KBSR \<and> a \<noteq> MR_KBDR \<longrightarrow> mem s1 a = mem s a"
    by (simp add: s1 mem_read_def Let_def set_reg_def split: prod.splits)
  have p: "reg s R_PC \<noteq> MR_KBSR \<longrightarrow> mem s1 = mem s \<and> io s1 = io s"
    by (simp add: s1 mem_read_plain set_reg_def)
  show ?thesis using m p by (simp add: st f)
qed

theorem undefined_opcode_aborts_witness:
  "fst (fetch (initial_state reserved_image idle_host)) = 0xD000
   \<and> drop_bit 12 (0xD000 :: word16) = OP_RES
   \<and> status (step (initial_state reserved_image idle_host)) = Aborted
   \<and> reg (step (initial_state reserved_image idle_host))
       = (reg (initial_state reserved_image idle_host))(R_PC := PC_START + 1)
   \<and> mem (step (initial_state reserved_image idle_host)) = reserved_image"
proof -
  have a: "fst (fetch (initial_state reserved_image idle_host)) = 0xD000" by code_simp
  have b: "drop_bit 12 (0xD000 :: word16) = OP_RES" by simp
  have c: "reg (initial_state reserved_image idle_host) R_PC = PC_START"
    "mem (initial_state reserved_image idle_host) = reserved_image"
    by (simp_all add: initial_state_def)
  note t = undefined_opcode_aborts [OF fetch_pair [OF a] disjI2 [OF b]]
  from t have d: "status (step (initial_state reserved_image idle_host)) = Aborted"
    by (rule conjunct1)
  from t have e: "reg (step (initial_state reserved_image idle_host))
       = (reg (initial_state reserved_image idle_host))(R_PC := PC_START + 1)"
    unfolding c by blast
  from t have "PC_START \<noteq> MR_KBSR \<longrightarrow>
      mem (step (initial_state reserved_image idle_host)) = reserved_image"
    unfolding c by blast
  then have f: "mem (step (initial_state reserved_image idle_host)) = reserved_image"
    by simp
  from a b d e f show ?thesis by blast
qed

subsection \<open>Trap vectors\<close>

text \<open>
  The inner switch has six cases and no default. A TRAP with any other vector saves the
  program counter in R7 and does nothing else: the loop goes on.
\<close>

lemma exec_TRAP_unknown_vector:
  assumes "instr AND 0xFF \<notin> {TRAP_GETC, TRAP_OUT, TRAP_PUTS, TRAP_IN, TRAP_PUTSP, TRAP_HALT}"
  shows "exec_TRAP instr s = set_reg R_R7 (reg s R_PC) s"
  using assms by (simp add: exec_TRAP_def Let_def)

lemma step_unknown_vector_status:
  assumes "drop_bit 12 (fst (fetch s)) = OP_TRAP"
    and "fst (fetch s) AND 0xFF \<notin> {TRAP_GETC, TRAP_OUT, TRAP_PUTS, TRAP_IN, TRAP_PUTSP, TRAP_HALT}"
  shows "status (step s) = status s"
  using assms
  by (simp add: step_alt exec_op exec_TRAP_unknown_vector set_reg_def del: insert_iff)

text \<open>
  Claim C1 requires a TRAP with a vector outside \<open>0x20..0x25\<close> to stop the machine as an
  undefined opcode does. The code at the instruction \<open>0xF0FF\<close> (TRAP, vector \<open>0xFF\<close>):
  the pass ends with the machine still running, the program counter at the next
  instruction and R7 set; the next pass executes the \<open>TRAP HALT\<close> that follows and the
  run ends as a normal halt. The reserved opcode 13 in the same place aborts.
\<close>

theorem undefined_trap_vector_falls_through:
  "drop_bit 12 (0xF0FF :: word16) = OP_TRAP
   \<and> fst (fetch (initial_state bad_trap_image idle_host)) = 0xF0FF
   \<and> status (step (initial_state bad_trap_image idle_host)) = Running
   \<and> reg (step (initial_state bad_trap_image idle_host)) R_PC = 0x3001
   \<and> reg (step (initial_state bad_trap_image idle_host)) R_R7 = 0x3001
   \<and> status (run 2 (initial_state bad_trap_image idle_host)) = Halted
   \<and> status (step (initial_state reserved_image idle_host)) = Aborted"
  by code_simp

subsection \<open>The string traps\<close>

lemma mem_string_end: "MEM_MAX \<le> c \<Longrightarrow> mem_string m c = []"
  by (simp add: mem_string_def)

lemma mem_string_zero: "m (of_nat c) = 0 \<Longrightarrow> mem_string m c = []"
  by (cases "c < MEM_MAX") (simp_all add: mem_string_def upt_rec [of c])

lemma mem_string_step:
  "c < MEM_MAX \<Longrightarrow> m (of_nat c) \<noteq> 0 \<Longrightarrow> mem_string m c = m (of_nat c) # mem_string m (Suc c)"
  by (simp add: mem_string_def upt_rec [of c])

lemma mem_string_nth:
  assumes "i < length (mem_string m a)"
  shows "mem_string m a ! i = m (of_nat (a + i))"
proof -
  let ?xs = "map (\<lambda>c. m (of_nat c)) [a..<MEM_MAX]"
  have "length (mem_string m a) \<le> length ?xs"
    unfolding mem_string_def by (rule length_takeWhile_le)
  then have i: "i < MEM_MAX - a" using assms by simp
  have "mem_string m a ! i = ?xs ! i"
    using assms unfolding mem_string_def by (rule takeWhile_nth)
  also have "\<dots> = m (of_nat (a + i))" using i by simp
  finally show ?thesis .
qed

lemma terminated_end: "MEM_MAX \<le> c \<Longrightarrow> \<not> terminated m c"
  by (simp add: terminated_def)

lemma terminated_zero: "c < MEM_MAX \<Longrightarrow> m (of_nat c) = 0 \<Longrightarrow> terminated m c"
  by (simp add: terminated_def upt_rec [of c])

lemma terminated_step:
  "c < MEM_MAX \<Longrightarrow> m (of_nat c) \<noteq> 0 \<Longrightarrow> terminated m c = terminated m (Suc c)"
  by (simp add: terminated_def upt_rec [of c])

text \<open>
  The loop of \<open>TRAP_PUTS\<close> writes the low byte of each word of the string and reports
  whether it met the terminating zero inside the array.
\<close>

lemma puts_loop_string:
  "puts_loop m c h = (terminated m c, h\<lparr>stdout := stdout h @ map ucast (mem_string m c)\<rparr>)"
proof (induction m c h rule: puts_loop.induct)
  case (1 m c h)
  show ?case
  proof (cases "MEM_MAX \<le> c")
    case True
    then show ?thesis
      by (subst puts_loop.simps) (simp add: mem_string_end terminated_end)
  next
    case False
    then have lt: "c < MEM_MAX" by simp
    show ?thesis
    proof (cases "m (of_nat c) = 0")
      case True
      then show ?thesis using lt
        by (subst puts_loop.simps) (simp add: mem_string_zero terminated_zero)
    next
      case nz: False
      have "puts_loop m c h = puts_loop m (Suc c) (putc (ucast (m (of_nat c))) h)"
        using lt nz by (subst puts_loop.simps) simp
      also have "\<dots> = (terminated m (Suc c),
          (putc (ucast (m (of_nat c))) h)\<lparr>stdout := stdout (putc (ucast (m (of_nat c))) h)
             @ map ucast (mem_string m (Suc c))\<rparr>)"
        using 1 False nz by simp
      finally show ?thesis
        using lt nz by (simp add: mem_string_step terminated_step putc_def)
    qed
  qed
qed

lemma putsp_loop_string:
  "putsp_loop m c h
     = (terminated m c, h\<lparr>stdout := stdout h @ concat (map packed_bytes (mem_string m c))\<rparr>)"
proof (induction m c h rule: putsp_loop.induct)
  case (1 m c h)
  show ?case
  proof (cases "MEM_MAX \<le> c")
    case True
    then show ?thesis
      by (subst putsp_loop.simps) (simp add: mem_string_end terminated_end)
  next
    case False
    then have lt: "c < MEM_MAX" by simp
    show ?thesis
    proof (cases "m (of_nat c) = 0")
      case True
      then show ?thesis using lt
        by (subst putsp_loop.simps) (simp add: mem_string_zero terminated_zero)
    next
      case nz: False
      define h2 where "h2 = h\<lparr>stdout := stdout h @ packed_bytes (m (of_nat c))\<rparr>"
      have h2: "(if (ucast (drop_bit 8 (m (of_nat c))) :: 8 word) \<noteq> 0
                 then putc (ucast (drop_bit 8 (m (of_nat c))))
                        (putc (ucast (m (of_nat c) AND 0xFF)) h)
                 else putc (ucast (m (of_nat c) AND 0xFF)) h) = h2"
        by (simp add: h2_def packed_bytes_def putc_def)
      have "putsp_loop m c h = putsp_loop m (Suc c) h2"
        using lt nz by (subst putsp_loop.simps) (simp add: Let_def h2)
      also have "\<dots> = (terminated m (Suc c),
          h2\<lparr>stdout := stdout h2 @ concat (map packed_bytes (mem_string m (Suc c)))\<rparr>)"
        using "1.IH" [OF False nz refl refl refl refl] unfolding h2 .
      finally show ?thesis
        using lt nz by (simp add: mem_string_step terminated_step h2_def)
    qed
  qed
qed

text \<open>
  Claim C10: \<open>TRAP_PUTS\<close> and \<open>TRAP_PUTSP\<close> read the string straight from the array,
  never through \<open>mem_read\<close>. For a string that ends on a zero word inside the memory,
  wherever it lies and so also when it spans the keyboard status address \<open>0xFE00\<close>, the
  trap changes R7 and the output and nothing else: the memory is unchanged, and the
  counts of keyboard polls and of characters read are unchanged. The output is extended
  by the words of the string up to and excluding the first zero word, each word written
  as its low byte (PUTS) or as its low byte followed by its non-zero high byte (PUTSP),
  and each of these words is the stored content of the array at its address.
\<close>

theorem string_traps_read_array_directly:
  assumes "instr AND 0xFF = TRAP_PUTS \<or> instr AND 0xFF = TRAP_PUTSP"
    and "terminated (mem s) (unat (reg s R_R0))"
  shows "exec_TRAP instr s
           = s\<lparr>reg := (reg s)(R_R7 := reg s R_PC),
               io := (io s)\<lparr>stdout := stdout (io s) @
                 (if instr AND 0xFF = TRAP_PUTS
                  then map ucast (mem_string (mem s) (unat (reg s R_R0)))
                  else concat (map packed_bytes (mem_string (mem s) (unat (reg s R_R0)))))\<rparr>\<rparr>
       \<and> mem (exec_TRAP instr s) = mem s
       \<and> polls (io (exec_TRAP instr s)) = polls (io s)
       \<and> reads (io (exec_TRAP instr s)) = reads (io s)
       \<and> (\<forall>i < length (mem_string (mem s) (unat (reg s R_R0))).
             mem_string (mem s) (unat (reg s R_R0)) ! i
               = mem s (of_nat (unat (reg s R_R0) + i)))"
proof -
  have eq: "exec_TRAP instr s
           = s\<lparr>reg := (reg s)(R_R7 := reg s R_PC),
               io := (io s)\<lparr>stdout := stdout (io s) @
                 (if instr AND 0xFF = TRAP_PUTS
                  then map ucast (mem_string (mem s) (unat (reg s R_R0)))
                  else concat (map packed_bytes (mem_string (mem s) (unat (reg s R_R0)))))\<rparr>\<rparr>"
    using assms
    by (auto simp add: exec_TRAP_def Let_def set_reg_def puts_loop_string putsp_loop_string)
  show ?thesis
    by (simp add: eq mem_string_nth)
qed

theorem string_traps_read_array_directly_witness:
  "(0xF022 :: word16) AND 0xFF = TRAP_PUTS
   \<and> reg (run 1 (initial_state puts_image (typing_host 97))) R_R0 = 0xFDFF
   \<and> terminated puts_image (unat (0xFDFF :: word16))
   \<and> mem_string puts_image (unat (0xFDFF :: word16)) = [0x48, 0x49, 0x21]
   \<and> stdout (io (exec_TRAP 0xF022 (run 1 (initial_state puts_image (typing_host 97)))))
       = [0x48, 0x49, 0x21]
   \<and> polls (io (exec_TRAP 0xF022 (run 1 (initial_state puts_image (typing_host 97))))) = 0
   \<and> mem (exec_TRAP 0xF022 (run 1 (initial_state puts_image (typing_host 97)))) MR_KBSR = 0x49
   \<and> fst (mem_read MR_KBSR (run 1 (initial_state puts_image (typing_host 97)))) = 0x8000
   \<and> polls (io (snd (mem_read MR_KBSR (run 1 (initial_state puts_image (typing_host 97)))))) = 1"
proof -
  let ?s = "run 1 (initial_state puts_image (typing_host 97))"
  have a: "(0xF022 :: word16) AND 0xFF = TRAP_PUTS" by simp
  have b: "reg ?s R_R0 = 0xFDFF" "polls (io ?s) = 0" "stdout (io ?s) = []"
    "mem ?s MR_KBSR = 0x49"
    "fst (mem_read MR_KBSR ?s) = 0x8000" "polls (io (snd (mem_read MR_KBSR ?s))) = 1"
    by code_simp+
  have m: "mem ?s = puts_image"
    by (simp add: step_def fetch_plain initial_state_def set_reg_def exec_def exec_LD_def
        Let_def puts_image_def mem_read_plain sign_extend_def)
  have c: "terminated puts_image (unat (0xFDFF :: word16))"
    "mem_string puts_image (unat (0xFDFF :: word16)) = [0x48, 0x49, 0x21]"
    by (simp_all add: terminated_step terminated_zero mem_string_step mem_string_zero
        puts_image_def)
  have tm: "terminated (mem ?s) (unat (reg ?s R_R0))" unfolding m b using c(1) .
  note t = string_traps_read_array_directly [OF disjI1 [OF a] tm]
  from t have "stdout (io (exec_TRAP 0xF022 ?s)) = stdout (io ?s) @
      (if (0xF022 :: word16) AND 0xFF = TRAP_PUTS
       then map ucast (mem_string (mem ?s) (unat (reg ?s R_R0)))
       else concat (map packed_bytes (mem_string (mem ?s) (unat (reg ?s R_R0)))))"
    by simp
  then have d: "stdout (io (exec_TRAP 0xF022 ?s)) = [0x48, 0x49, 0x21]"
    unfolding m b c by simp
  from t have e: "polls (io (exec_TRAP 0xF022 ?s)) = 0" unfolding b by blast
  from t have "mem (exec_TRAP 0xF022 ?s) = mem ?s" by blast
  then have f: "mem (exec_TRAP 0xF022 ?s) MR_KBSR = 0x49" using b(4) by simp
  from a b c d e f show ?thesis by blast
qed

end
